theory Spec2Isabelle
  imports
    Complex_Main
    "HOL-Library.Char_ord"
    "HOL-Library.List_Lexorder"
    "HOL-Library.Product_Lexorder"
begin

section \<open>Errors and the files the ingestion works on\<close>

text \<open>
  Every exception that the modelled Python can raise is a value of \<open>error\<close>.
  The constructors carry the names of the Python exceptions; \<open>CleaningError\<close> stands for
  whatever the pandas cleaning of a batch raises, \<open>ModelError\<close> for whatever the
  statsmodels fit or forecast raises.
\<close>

datatype error =
    FileNotFoundError
  | JSONDecodeError
  | ParserError
  | ValueError
  | IndexError
  | TypeError
  | CleaningError
  | ModelError

text \<open>
  A cell of a raw statement file is a piece of text, or missing (pandas' NaN).
  A raw file is its header line, cut at the semicolons, and its data lines, cut likewise.
  The length of \<open>header\<close> is what \<^verbatim>\<open>len(f.readline().strip().split(';'))\<close> counts.
\<close>

type_synonym cell = "string option"

record raw_file =
  header :: "string list"
  lines :: "cell list list"

text \<open>A data frame of text cells, as \<^verbatim>\<open>pd.read_csv\<close> returns it.\<close>

record frame =
  columns :: "string list"
  rows :: "cell list list"

text \<open>
  A row of a cleaned batch. Dates are day numbers (days since 1970-01-01; every timestamp
  of the program is at midnight); \<open>None\<close> is pandas' NaT, which \<^verbatim>\<open>errors='coerce'\<close>
  gives to an unparseable date. Amounts and balances are real numbers.
  A row of \<^verbatim>\<open>transactions.csv\<close> has the three columns of \<^verbatim>\<open>apply_fixed_rules\<close> in addition.
\<close>

record row =
  date :: "int option"
  sender :: string
  recipient :: string
  description :: string
  amount :: real
  balance :: real

record transaction = row +
  is_recurring :: bool
  is_essential :: bool
  concept :: string

text \<open>
  The register (a Python dict, loaded from and dumped to \<^verbatim>\<open>register.json\<close>) maps a
  file name to the timestamp of its ingestion. The register file is absent, present but
  not JSON, or present with a dict.
\<close>

type_synonym timestamp = string
type_synonym register = "string \<rightharpoonup> timestamp"

datatype register_file = Missing | Malformed | Present register

text \<open>
  The part of the file system that \<^verbatim>\<open>src/src/data.py\<close> reads and writes:
  the directory \<^verbatim>\<open>data/raw\<close> (in the order \<^verbatim>\<open>os.listdir\<close> gives, no name twice),
  \<^verbatim>\<open>data/processed/register.json\<close> and \<^verbatim>\<open>data/processed/transactions.csv\<close>.
\<close>

record files =
  raw_dir :: "(string \<times> raw_file) list"
  register_json :: register_file
  transactions_csv :: "transaction list option"

text \<open>The two environment variables \<^verbatim>\<open>os.getenv\<close> reads; \<open>None\<close> when unset.\<close>

record env =
  GENERAL_ACCOUNT_ENDING :: "string option"
  SAVINGS_ACCOUNT_ENDING :: "string option"

section \<open>Strings\<close>

text \<open>Python's \<^verbatim>\<open>str.lower\<close>, on the ASCII letters (a \<open>char\<close> is one byte).\<close>

definition lower_char :: "char \<Rightarrow> char" where
  "lower_char c =
     (case map_of (zip ''ABCDEFGHIJKLMNOPQRSTUVWXYZ'' ''abcdefghijklmnopqrstuvwxyz'') c of
        Some l \<Rightarrow> l | None \<Rightarrow> c)"

definition lower :: "string \<Rightarrow> string" where
  "lower s = map lower_char s"

definition startswith :: "string \<Rightarrow> string \<Rightarrow> bool" where
  "startswith s p = (take (length p) s = p)"

definition endswith :: "string \<Rightarrow> string \<Rightarrow> bool" where
  "endswith s p = (length p \<le> length s \<and> drop (length s - length p) s = p)"

text \<open>\<open>str_contains s p\<close>: \<open>p\<close> occurs in \<open>s\<close> as a contiguous substring.\<close>

fun str_contains :: "string \<Rightarrow> string \<Rightarrow> bool" where
  "str_contains [] p = (p = [])"
| "str_contains (c # cs) p = (startswith (c # cs) p \<or> str_contains cs p)"

text \<open>\<^verbatim>\<open>'|'.join(keywords)\<close>\<close>

fun join_bar :: "string list \<Rightarrow> string" where
  "join_bar [] = []"
| "join_bar [k] = k"
| "join_bar (k # ks) = k @ CHR ''|'' # join_bar ks"

text \<open>
  \<^verbatim>\<open>Series.str.contains(pattern)\<close> is a regular-expression search. The patterns of this
  program are literal texts separated by \<^verbatim>\<open>|\<close>; \<open>re_search\<close> is the search for such a
  pattern: it cuts the pattern at every \<^verbatim>\<open>|\<close> and looks for one of the alternatives.
  \<open>regex_special\<close> lists the characters that a regular expression does not read literally.
\<close>

fun split_bar :: "string \<Rightarrow> string list" where
  "split_bar [] = [[]]"
| "split_bar (c # cs) =
     (if c = CHR ''|'' then [] # split_bar cs
      else (case split_bar cs of [] \<Rightarrow> [[c]] | a # as \<Rightarrow> (c # a) # as))"

definition re_search :: "string \<Rightarrow> string \<Rightarrow> bool" where
  "re_search pattern s = list_ex (str_contains s) (split_bar pattern)"

definition regex_special :: "char list" where
  "regex_special = [CHR ''.'', CHR ''^'', CHR ''$'', CHR ''*'', CHR ''+'', CHR ''?'',
     CHR ''{'', CHR ''}'', CHR ''['', CHR '']'', CHR 0x5C, CHR ''|'', CHR ''('', CHR '')'']"

section \<open>The file register: \<^verbatim>\<open>get_files\<close>\<close>

definition listdir :: "files \<Rightarrow> string list" where
  "listdir fs = map fst (raw_dir fs)"

text \<open>
  \<^verbatim>\<open>
  def get_files(reprocess: bool = False) -> list:
      all_files = os.listdir(f"{ROOT_DIR}/data/raw")
      if reprocess or not os.path.exists(REGISTER_PATH):
          return all_files, {}
      with open(REGISTER_PATH, "r") as f:
          register = json.load(f)
      return [file for file in all_files if file not in register], register
  \<close>
\<close>

definition path_exists :: "register_file \<Rightarrow> bool" where
  "path_exists rf = (case rf of Missing \<Rightarrow> False | _ \<Rightarrow> True)"

definition get_files :: "bool \<Rightarrow> files \<Rightarrow> error + (string list \<times> register)" where
  "get_files reprocess fs =
     (let all_files = listdir fs in
      if reprocess \<or> \<not> path_exists (register_json fs) then Inr (all_files, Map.empty)
      else case register_json fs of
             Present reg \<Rightarrow> Inr (filter (\<lambda>file. reg file = None) all_files, reg)
           | _ \<Rightarrow> Inl JSONDecodeError)"

section \<open>Recurring payments: \<^verbatim>\<open>flag_recurring\<close>\<close>

text \<open>
  \<^verbatim>\<open>
  def flag_recurring(df: pd.DataFrame) -> pd.DataFrame:
      df = df.copy()
      df['date'] = pd.to_datetime(df['date'])
      base_flag = df['description'].str.lower().str.startswith('european direct debit creditor')
      df_sorted = df.sort_values(['recipient', 'date'])
      prev_dates = df_sorted.groupby('recipient')['date'].shift(1)
      days_diff = (df_sorted['date'] - prev_dates).dt.days
      periodic_flag = days_diff.between(27, 33)
      is_recurring = base_flag.copy()
      is_recurring.loc[df_sorted.index] = is_recurring.loc[df_sorted.index] | periodic_flag
      return is_recurring
  \<close>
  The frame has the labels \<open>0, 1, \<dots>\<close> of \<^verbatim>\<open>reset_index(drop=True)\<close>, which is how
  \<^verbatim>\<open>preprocessing\<close> hands it over; a labelled row is a pair of its label and the row.
  Every cell of \<^verbatim>\<open>description\<close> and \<^verbatim>\<open>recipient\<close> holds a text.
\<close>

text \<open>
  A cell of a date column is a text (the column is of dtype \<^verbatim>\<open>object\<close>, as after
  \<^verbatim>\<open>pd.read_csv\<close>) or a timestamp (dtype \<^verbatim>\<open>datetime64\<close>, NaT included).
  \<^verbatim>\<open>pd.to_datetime\<close> returns a column of timestamps: a timestamp stays, a text is parsed,
  and a text that the parser refuses raises a \<^verbatim>\<open>ValueError\<close>. Which texts the pandas
  parser reads as which day is the parameter \<open>parse\<close> (\<open>None\<close>: it refuses the text).
\<close>

datatype date_cell = Text string | Stamp "int option"

type_synonym date_parser = "string \<Rightarrow> int option"

fun to_datetime :: "date_parser \<Rightarrow> date_cell list \<Rightarrow> error + date_cell list" where
  "to_datetime parse [] = Inr []"
| "to_datetime parse (Stamp d # cs) =
     (case to_datetime parse cs of Inl e \<Rightarrow> Inl e | Inr ds \<Rightarrow> Inr (Stamp d # ds))"
| "to_datetime parse (Text t # cs) =
     (case parse t of
        None \<Rightarrow> Inl ValueError
      | Some n \<Rightarrow>
          (case to_datetime parse cs of Inl e \<Rightarrow> Inl e | Inr ds \<Rightarrow> Inr (Stamp (Some n) # ds)))"

text \<open>The order of a date column when sorting: NaT comes last.\<close>

definition date_key :: "int option \<Rightarrow> bool \<times> int" where
  "date_key d = (case d of None \<Rightarrow> (True, 0) | Some n \<Rightarrow> (False, n))"

text \<open>
  \<^verbatim>\<open>sort_values(['recipient', 'date'])\<close>: a sort on several columns is a stable
  lexicographic sort. \<open>sort_key\<close> is a stable insertion sort.
\<close>

definition sort_values :: "(nat \<times> 'a row_scheme) list \<Rightarrow> (nat \<times> 'a row_scheme) list" where
  "sort_values df = sort_key (\<lambda>(i, r). (recipient r, date_key (date r))) df"

text \<open>
  \<^verbatim>\<open>groupby('recipient')['date'].shift(1)\<close>: every row gets the date of the row before it
  in its group, in the order of the frame, and NaT when there is none. \<open>seen\<close> holds the
  date of the last row met for each recipient.
\<close>

fun group_shift :: "(string \<rightharpoonup> int option) \<Rightarrow> (nat \<times> 'a row_scheme) list \<Rightarrow> int option list" where
  "group_shift seen [] = []"
| "group_shift seen ((i, r) # rs) =
     (case seen (recipient r) of None \<Rightarrow> None | Some d \<Rightarrow> d)
       # group_shift (seen(recipient r \<mapsto> date r)) rs"

text \<open>The whole days between two timestamps; NaT when one of them is NaT.\<close>

definition days_between :: "int option \<Rightarrow> int option \<Rightarrow> int option" where
  "days_between d p =
     (case d of None \<Rightarrow> None | Some a \<Rightarrow> (case p of None \<Rightarrow> None | Some b \<Rightarrow> Some (a - b)))"

text \<open>\<^verbatim>\<open>Series.between(left, right)\<close> includes both ends; a missing value is not between.\<close>

definition between :: "int \<Rightarrow> int \<Rightarrow> int option \<Rightarrow> bool" where
  "between left right g = (case g of None \<Rightarrow> False | Some v \<Rightarrow> left \<le> v \<and> v \<le> right)"

definition base_flag :: "'a row_scheme list \<Rightarrow> bool list" where
  "base_flag df =
     map (\<lambda>r. startswith (lower (description r)) ''european direct debit creditor'') df"

text \<open>Lines 21 to 31: what is computed from the copy.\<close>

definition recurring_of :: "'a row_scheme list \<Rightarrow> bool list" where
  "recurring_of df =
     (let df_sorted = sort_values (enumerate 0 df);
          prev_dates = group_shift Map.empty df_sorted;
          days_diff = map2 (\<lambda>(i, r) p. days_between (date r) p) df_sorted prev_dates;
          periodic_flag = map (between 27 33) days_diff;
          labels = map fst df_sorted;
          rhs = map2 (\<lambda>i p. base_flag df ! i \<or> p) labels periodic_flag
      in fold (\<lambda>(i, v) is_recurring. is_recurring[i := v]) (zip labels rhs) (base_flag df))"

text \<open>
  In \<^verbatim>\<open>apply_fixed_rules\<close> the date column holds timestamps already (line 85 of
  \<^verbatim>\<open>preprocessing\<close> has parsed it), and \<^verbatim>\<open>pd.to_datetime\<close> returns such a column as it
  is. \<open>flag_recurring\<close> is the function of the value of such a frame, whose rows carry the
  timestamps: it is lines 21 to 31 on the frame. \<open>flag_recurring_obj\<close> below has lines 19
  and 20, on a frame that is an object and whose date column may hold texts.
\<close>

definition flag_recurring :: "'a row_scheme list \<Rightarrow> bool list" where
  "flag_recurring df = recurring_of df"

text \<open>
  With the frames as objects. A frame is its columns; the store is the list of the frames
  that exist, and a reference is a position in it. \<^verbatim>\<open>df.copy()\<close> makes a new object
  with the contents of the old one; the local name \<^verbatim>\<open>df\<close> then refers to the new
  object, and the assignment to \<^verbatim>\<open>df['date']\<close> replaces the date column of that
  object. \<open>rows_of\<close> reads the rows of a frame whose date column holds timestamps.
\<close>

record data_frame =
  date_column :: "date_cell list"
  sender_column :: "string list"
  recipient_column :: "string list"
  description_column :: "string list"
  amount_column :: "real list"
  balance_column :: "real list"

fun stamp_of :: "date_cell \<Rightarrow> int option" where
  "stamp_of (Stamp d) = d"
| "stamp_of (Text t) = None"

definition rows_of :: "data_frame \<Rightarrow> row list" where
  "rows_of df =
     map (\<lambda>(d, s, rc, ds, a, b).
            \<lparr>date = stamp_of d, sender = s, recipient = rc, description = ds,
             amount = a, balance = b\<rparr>)
       (zip (date_column df) (zip (sender_column df) (zip (recipient_column df)
         (zip (description_column df) (zip (amount_column df) (balance_column df))))))"

type_synonym store = "data_frame list"

definition df_copy :: "store \<Rightarrow> nat \<Rightarrow> nat \<times> store" where
  "df_copy s r = (length s, s @ [s ! r])"

text \<open>
  The result is the series, or the exception that line 20 raised, and the store after
  the call.
\<close>

definition flag_recurring_obj :: "date_parser \<Rightarrow> store \<Rightarrow> nat \<Rightarrow> (error + bool list) \<times> store" where
  "flag_recurring_obj parse s r =
     (let (df, s1) = df_copy s r in
      case to_datetime parse (date_column (s1 ! df)) of
        Inl e \<Rightarrow> (Inl e, s1)
      | Inr stamps \<Rightarrow>
          (let s2 = s1[df := (s1 ! df)\<lparr>date_column := stamps\<rparr>]
           in (Inr (recurring_of (rows_of (s2 ! df))), s2)))"

section \<open>Categories: \<^verbatim>\<open>apply_fixed_rules\<close>\<close>

text \<open>
  An entry of the dict \<^verbatim>\<open>fixed_rules\<close>: its key, and the two attributes. A dict
  is walked in the order in which its entries were written.
\<close>

record rule =
  rule_concept :: string
  rule_keywords :: "string list"
  rule_essential :: bool

definition fixed_rules :: "rule list" where
  "fixed_rules =
    [\<lparr>rule_concept = ''Salary'', rule_keywords = [''arhs''], rule_essential = True\<rparr>,
     \<lparr>rule_concept = ''Rent'', rule_keywords = [''despes''], rule_essential = True\<rparr>,
     \<lparr>rule_concept = ''Groceries'',
      rule_keywords = [''delhaize'', ''carrefour'', ''crf exp'', ''finest globe belliard''],
      rule_essential = True\<rparr>,
     \<lparr>rule_concept = ''Insurance'', rule_keywords = [''FMSB-FSMB''], rule_essential = True\<rparr>,
     \<lparr>rule_concept = ''Savings'', rule_keywords = [''estalvis''], rule_essential = True\<rparr>,
     \<lparr>rule_concept = ''Grooming'',
      rule_keywords = [''sportoase'', ''xxl nutrition'', ''apotheek'', ''knapper''],
      rule_essential = True\<rparr>,
     \<lparr>rule_concept = ''Transport'', rule_keywords = [''stib'', ''sncb'', ''nmbs'', ''bahn''],
      rule_essential = True\<rparr>,
     \<lparr>rule_concept = ''Cantine'', rule_keywords = [''cantine''], rule_essential = False\<rparr>,
     \<lparr>rule_concept = ''Subscriptions'', rule_keywords = [''kbc plus''], rule_essential = False\<rparr>]"

text \<open>
  \<^verbatim>\<open>
  def apply_fixed_rules(df: pd.DataFrame) -> None:
      df['is_recurring'] = flag_recurring(df)
      df['is_essential'] = False
      df['concept'] = 'Others'
      fixed_rules = { ... }
      for concept, attributes in fixed_rules.items():
          pattern = '|'.join(attributes['keywords'])
          mask = df['description'].str.lower().str.contains(pattern)
          df.loc[mask, 'concept'] = concept
          df.loc[mask, 'is_essential'] = attributes['is_essential']
  \<close>
\<close>

definition annotate :: "row \<Rightarrow> bool \<Rightarrow> bool \<Rightarrow> string \<Rightarrow> transaction" where
  "annotate r rec ess con =
     \<lparr>date = date r, sender = sender r, recipient = recipient r, description = description r,
      amount = amount r, balance = balance r,
      is_recurring = rec, is_essential = ess, concept = con\<rparr>"

definition rule_mask :: "rule \<Rightarrow> 'a row_scheme \<Rightarrow> bool" where
  "rule_mask rl r = re_search (join_bar (rule_keywords rl)) (lower (description r))"

definition apply_rule :: "rule \<Rightarrow> transaction list \<Rightarrow> transaction list" where
  "apply_rule rl df =
     map (\<lambda>t. if rule_mask rl t then t\<lparr>concept := rule_concept rl, is_essential := rule_essential rl\<rparr> else t) df"

definition apply_fixed_rules :: "row list \<Rightarrow> transaction list" where
  "apply_fixed_rules df =
     (let recurring = flag_recurring df;
          df1 = map2 (\<lambda>r f. annotate r f False ''Others'') df recurring
      in fold apply_rule fixed_rules df1)"

text \<open>
  The categorisation as the specification words it: a rule matches a description when the
  case-folded description contains one of the rule's keywords as a substring; the last
  matching rule in the declared order decides; with no match the category is
  \<^verbatim>\<open>Others\<close> and not essential.
\<close>

definition spec_rule_matches :: "rule \<Rightarrow> string \<Rightarrow> bool" where
  "spec_rule_matches rl d = list_ex (str_contains (lower d)) (rule_keywords rl)"

definition spec_category :: "rule list \<Rightarrow> string \<Rightarrow> string \<times> bool" where
  "spec_category rules d =
     (case filter (\<lambda>rl. spec_rule_matches rl d) rules of
        [] \<Rightarrow> (''Others'', False)
      | m # ms \<Rightarrow> (rule_concept (last (m # ms)), rule_essential (last (m # ms))))"

text \<open>What one pass of the loop does to one row.\<close>

definition rule_step :: "rule \<Rightarrow> transaction \<Rightarrow> transaction" where
  "rule_step rl t = (if rule_mask rl t then t\<lparr>concept := rule_concept rl, is_essential := rule_essential rl\<rparr> else t)"

text \<open>
  The recurrence rule as the specification words it. The transactions are grouped by
  recipient and each group is sorted by date (a stable sort, NaT last); the gap of a
  transaction is the number of days since the transaction before it in its group, and
  there is no gap for the first transaction of a group. A transaction is recurring when
  its case-folded description starts with the marker, or its gap lies in the window.
\<close>

definition group_of :: "'a row_scheme list \<Rightarrow> string \<Rightarrow> (nat \<times> 'a row_scheme) list" where
  "group_of df rcp =
     sort_key (\<lambda>(i, r). date_key (date r)) (filter (\<lambda>(i, r). recipient r = rcp) (enumerate 0 df))"

fun previous_in :: "nat \<Rightarrow> (nat \<times> 'b) list \<Rightarrow> 'b option" where
  "previous_in i [] = None"
| "previous_in i [x] = None"
| "previous_in i (x # y # ys) = (if fst y = i then Some (snd x) else previous_in i (y # ys))"

definition spec_gap :: "'a row_scheme list \<Rightarrow> nat \<Rightarrow> int option" where
  "spec_gap df i =
     (case previous_in i (group_of df (recipient (df ! i))) of
        None \<Rightarrow> None
      | Some p \<Rightarrow> days_between (date (df ! i)) (date p))"

definition spec_recurring :: "(int option \<Rightarrow> bool) \<Rightarrow> 'a row_scheme list \<Rightarrow> bool list" where
  "spec_recurring window df =
     map (\<lambda>i. startswith (lower (description (df ! i))) ''european direct debit creditor''
              \<or> window (spec_gap df i))
       [0..<length df]"

text \<open>The window \<open>[27, 33)\<close>: 27 days or more, and less than 33.\<close>

definition half_open_window :: "int option \<Rightarrow> bool" where
  "half_open_window g = (case g of None \<Rightarrow> False | Some v \<Rightarrow> 27 \<le> v \<and> v < 33)"

section \<open>Ingestion: \<^verbatim>\<open>load\<close> and \<^verbatim>\<open>preprocessing\<close>\<close>

text \<open>
  \<^verbatim>\<open>
  def load() -> pd.DataFrame:
      df = pd.read_csv(f"{ROOT_DIR}/data/processed/transactions.csv")
      df['date'] = pd.to_datetime(df['date'])
      df = df[df['sender'] == 'General'].reset_index(drop=True)
      return df
  \<close>
  The table is kept as the rows that were written: \<^verbatim>\<open>to_csv\<close> writes a timestamp as
  its ISO text, and line 117 parses the text back to the timestamp, so that writing a
  row and reading it back gives the row.
\<close>

definition load :: "files \<Rightarrow> error + transaction list" where
  "load fs =
     (case transactions_csv fs of
        None \<Rightarrow> Inl FileNotFoundError
      | Some df \<Rightarrow> Inr (filter (\<lambda>r. sender r = ''General'') df))"

text \<open>
  \<^verbatim>\<open>pd.read_csv(path, sep=';', usecols=range(ncols), index_col=False)\<close>: the columns at
  the positions \<open>0, \<dots>, ncols - 1\<close>. A position beyond the header of the file is
  refused; a data line that is shorter than \<open>ncols\<close> is filled up with missing cells.
\<close>

definition usecols :: "nat \<Rightarrow> cell list \<Rightarrow> cell list" where
  "usecols ncols l = map (\<lambda>i. if i < length l then l ! i else None) [0..<ncols]"

definition first_columns :: "nat \<Rightarrow> raw_file \<Rightarrow> frame" where
  "first_columns ncols f =
     \<lparr>columns = take ncols (header f), rows = map (usecols ncols) (lines f)\<rparr>"

definition read_csv :: "files \<Rightarrow> nat \<Rightarrow> string \<Rightarrow> error + frame" where
  "read_csv fs ncols file =
     (case map_of (raw_dir fs) file of
        None \<Rightarrow> Inl FileNotFoundError
      | Some f \<Rightarrow>
          if length (header f) < ncols then Inl ParserError
          else Inr (first_columns ncols f))"

text \<open>The list comprehension of line 64: the first file that fails ends it.\<close>

fun read_all :: "files \<Rightarrow> nat \<Rightarrow> string list \<Rightarrow> error + frame list" where
  "read_all fs ncols [] = Inr []"
| "read_all fs ncols (file # rest) =
     (case read_csv fs ncols file of
        Inl e \<Rightarrow> Inl e
      | Inr fr \<Rightarrow>
          (case read_all fs ncols rest of Inl e \<Rightarrow> Inl e | Inr frs \<Rightarrow> Inr (fr # frs)))"

text \<open>
  \<^verbatim>\<open>pd.concat(frames, ignore_index=True)\<close>: no frame at all is an error; otherwise the
  columns are those of the frames in the order of their first appearance, and the rows
  follow each other, a row having a missing cell in a column its frame has not.
\<close>

definition all_columns :: "frame list \<Rightarrow> string list" where
  "all_columns frs = fold (\<lambda>fr acc. acc @ filter (\<lambda>c. c \<notin> set acc) (columns fr)) frs []"

definition realign :: "string list \<Rightarrow> frame \<Rightarrow> cell list list" where
  "realign cols fr =
     map (\<lambda>l. map (\<lambda>c. case map_of (zip (columns fr) l) c of None \<Rightarrow> None | Some v \<Rightarrow> v) cols)
       (rows fr)"

definition pd_concat :: "frame list \<Rightarrow> error + frame" where
  "pd_concat frs =
     (if frs = [] then Inl ValueError
      else Inr \<lparr>columns = all_columns frs, rows = concat (map (realign (all_columns frs)) frs)\<rparr>)"

text \<open>Lines 61 to 66: the column count of the first pending file, and the batch read with it.\<close>

definition is_csv :: "string \<Rightarrow> bool" where
  "is_csv file = endswith file ''.csv''"

definition header_ncols :: "files \<Rightarrow> string \<Rightarrow> error + nat" where
  "header_ncols fs file =
     (case map_of (raw_dir fs) file of
        None \<Rightarrow> Inl FileNotFoundError
      | Some f \<Rightarrow> Inr (length (header f)))"

definition read_frames :: "files \<Rightarrow> string list \<Rightarrow> error + frame list" where
  "read_frames fs pending =
     (case header_ncols fs (hd pending) of
        Inl e \<Rightarrow> Inl e
      | Inr ncols \<Rightarrow> read_all fs ncols (filter is_csv pending))"

definition read_batch :: "files \<Rightarrow> string list \<Rightarrow> error + frame" where
  "read_batch fs pending =
     (case read_frames fs pending of Inl e \<Rightarrow> Inl e | Inr frs \<Rightarrow> pd_concat frs)"

text \<open>
  Lines 90 to 99. The dict \<^verbatim>\<open>sender_mapping\<close> has one entry when both variables hold
  the same value (the second value, under the first key). \<^verbatim>\<open>value.endswith(None)\<close>
  raises a \<^verbatim>\<open>TypeError\<close>.
\<close>

definition sender_mapping :: "env \<Rightarrow> (string option \<times> string) list" where
  "sender_mapping e =
     (if GENERAL_ACCOUNT_ENDING e = SAVINGS_ACCOUNT_ENDING e
      then [(GENERAL_ACCOUNT_ENDING e, ''Savings'')]
      else [(GENERAL_ACCOUNT_ENDING e, ''General''), (SAVINGS_ACCOUNT_ENDING e, ''Savings'')])"

fun replace_sender :: "(string option \<times> string) list \<Rightarrow> string \<Rightarrow> error + string" where
  "replace_sender [] v = Inr v"
| "replace_sender ((None, replacement) # ms) v = Inl TypeError"
| "replace_sender ((Some suffix, replacement) # ms) v =
     (if endswith v suffix then Inr replacement else replace_sender ms v)"

fun apply_replace_sender ::
  "(string option \<times> string) list \<Rightarrow> transaction list \<Rightarrow> error + transaction list" where
  "apply_replace_sender m [] = Inr []"
| "apply_replace_sender m (t # ts) =
     (case replace_sender m (sender t) of
        Inl e \<Rightarrow> Inl e
      | Inr s \<Rightarrow>
          (case apply_replace_sender m ts of
             Inl e \<Rightarrow> Inl e
           | Inr ts' \<Rightarrow> Inr (t\<lparr>sender := s\<rparr> # ts')))"

text \<open>
  Lines 67 to 88 (renaming and dropping columns, parsing the dates, sorting by date,
  parsing the numbers) are pandas calls on the text cells; what they return for a frame,
  or that they raise, is the parameter \<open>clean\<close> of the model. Lines 60 to 99 are then:
\<close>

definition normalise ::
  "(frame \<Rightarrow> error + row list) \<Rightarrow> env \<Rightarrow> files \<Rightarrow> string list \<Rightarrow> error + transaction list" where
  "normalise clean e fs pending =
     (case read_batch fs pending of
        Inl err \<Rightarrow> Inl err
      | Inr raw \<Rightarrow>
          (case clean raw of
             Inl err \<Rightarrow> Inl err
           | Inr df \<Rightarrow> apply_replace_sender (sender_mapping e) (apply_fixed_rules df)))"

text \<open>The two writes of the program.\<close>

definition to_csv :: "transaction list \<Rightarrow> files \<Rightarrow> files" where
  "to_csv df fs = fs\<lparr>transactions_csv := Some df\<rparr>"

definition json_dump :: "register \<Rightarrow> files \<Rightarrow> files" where
  "json_dump reg fs = fs\<lparr>register_json := Present reg\<rparr>"

text \<open>
  \<^verbatim>\<open>
  def preprocessing(reprocess: bool = False) -> None:
      files, register = get_files(reprocess)
      if not files:
          logging.info("No new files to process; exiting preprocessing")
          return None
      ...                                        # lines 60 to 99
      if reprocess:
          df.to_csv(f"{ROOT_DIR}/data/processed/transactions.csv", index=False)
          register = {}
      else:
          transactions = load()
          pd.concat([transactions, df], ignore_index=True).to_csv(
              f"{ROOT_DIR}/data/processed/transactions.csv", index=False)
      for file in files:
          register[file] = {"timestamp": datetime.now().isoformat()}
      with open(REGISTER_PATH, "w") as f:
          json.dump(register, f, indent=4)
  \<close>
  The result is the exception that ended the run, if any, and the files as the run left
  them. \<open>now file\<close> is the time at which the loop reaches \<open>file\<close>.
\<close>

definition preprocessing ::
  "(frame \<Rightarrow> error + row list) \<Rightarrow> env \<Rightarrow> (string \<Rightarrow> timestamp) \<Rightarrow> bool \<Rightarrow> files
     \<Rightarrow> error option \<times> files" where
  "preprocessing clean e now reprocess fs =
     (case get_files reprocess fs of
        Inl err \<Rightarrow> (Some err, fs)
      | Inr (pending, register) \<Rightarrow>
          if pending = [] then (None, fs)
          else
            (case normalise clean e fs pending of
               Inl err \<Rightarrow> (Some err, fs)
             | Inr df \<Rightarrow>
                 if reprocess then
                   (let fs1 = to_csv df fs;
                        register1 = fold (\<lambda>file reg. reg(file \<mapsto> now file)) pending Map.empty
                    in (None, json_dump register1 fs1))
                 else
                   (case load fs of
                      Inl err \<Rightarrow> (Some err, fs)
                    | Inr transactions \<Rightarrow>
                        (let fs1 = to_csv (transactions @ df) fs;
                             register1 = fold (\<lambda>file reg. reg(file \<mapsto> now file)) pending register
                         in (None, json_dump register1 fs1)))))"

section \<open>The calendar\<close>

text \<open>
  A timestamp at midnight is its day number, the days since 1970-01-01 in the proleptic
  Gregorian calendar. \<open>days_from_civil y m d\<close> is the day number of the date \<open>y-m-d\<close>.
\<close>

definition days_from_civil :: "int \<Rightarrow> int \<Rightarrow> int \<Rightarrow> int" where
  "days_from_civil y m d =
     (let y' = (if m \<le> 2 then y - 1 else y);
          era = y' div 400;
          yoe = y' - era * 400;
          doy = (153 * (if m > 2 then m - 3 else m + 9) + 2) div 5 + d - 1;
          doe = yoe * 365 + yoe div 4 - yoe div 100 + doy
      in era * 146097 + doe - 719468)"

text \<open>The year and the month (1 to 12) of a day number, as the count \<open>12 * year + month - 1\<close>.\<close>

definition month_index :: "int \<Rightarrow> int" where
  "month_index z =
     (let z' = z + 719468;
          era = z' div 146097;
          doe = z' - era * 146097;
          yoe = (doe - doe div 1460 + doe div 36524 - doe div 146096) div 365;
          doy = doe - (365 * yoe + yoe div 4 - yoe div 100);
          mp = (5 * doy + 2) div 153;
          m = (if mp < 10 then mp + 3 else mp - 9);
          y = yoe + era * 400 + (if m \<le> 2 then 1 else 0)
      in 12 * y + m - 1)"

definition month_start :: "int \<Rightarrow> int" where
  "month_start mi = days_from_civil (mi div 12) (mi mod 12 + 1) 1"

definition month_end :: "int \<Rightarrow> int" where
  "month_end mi = month_start (mi + 1) - 1"

text \<open>
  The frequencies of the model: the pandas aliases \<^verbatim>\<open>'D'\<close> (every day), \<^verbatim>\<open>'ME'\<close> (the
  last day of every month; the default of \<^verbatim>\<open>sarima\<close> and of its caller
  \<^verbatim>\<open>line_chart\<close>) and \<^verbatim>\<open>'MS'\<close> (the first day of every month).
\<close>

datatype frequency = Freq_D | Freq_ME | Freq_MS

text \<open>
  \<^verbatim>\<open>pd.date_range(start=s, end=e, freq=f)\<close>: the days of the frequency from \<open>s\<close> to \<open>e\<close>,
  both included, in ascending order.
\<close>

definition date_range :: "int \<Rightarrow> int \<Rightarrow> frequency \<Rightarrow> int list" where
  "date_range s e f =
     (case f of
        Freq_D \<Rightarrow> map (\<lambda>k. s + int k) [0..<nat (e - s + 1)]
      | Freq_ME \<Rightarrow>
          filter (\<lambda>d. s \<le> d \<and> d \<le> e)
            (map (\<lambda>k. month_end (month_index s + int k))
               [0..<nat (month_index e - month_index s + 1)])
      | Freq_MS \<Rightarrow>
          filter (\<lambda>d. s \<le> d \<and> d \<le> e)
            (map (\<lambda>k. month_start (month_index s + int k))
               [0..<nat (month_index e - month_index s + 1)]))"

text \<open>
  \<^verbatim>\<open>t + to_offset(f)\<close>: the first day of the frequency after \<open>t\<close>; and
  \<^verbatim>\<open>pd.date_range(t, periods=n, freq=f)\<close> for a day \<open>t\<close> of the frequency.
\<close>

definition add_offset :: "frequency \<Rightarrow> int \<Rightarrow> int" where
  "add_offset f t =
     (case f of
        Freq_D \<Rightarrow> t + 1
      | Freq_ME \<Rightarrow> (if month_end (month_index t) = t then month_end (month_index t + 1)
                     else month_end (month_index t))
      | Freq_MS \<Rightarrow> month_start (month_index t + 1))"

fun date_range_periods :: "frequency \<Rightarrow> int \<Rightarrow> nat \<Rightarrow> int list" where
  "date_range_periods f t 0 = []"
| "date_range_periods f t (Suc n) = t # date_range_periods f (add_offset f t) n"

section \<open>The forecast: \<^verbatim>\<open>sarima\<close>\<close>

text \<open>A series is the list of its entries, each a day and a value, in the order of its index.\<close>

type_synonym series = "(int \<times> real) list"

text \<open>
  Lines 53 to 55: the balances by date. The rows without a date (NaT) are not a group of
  \<^verbatim>\<open>groupby\<close>; the sort is taken to keep rows of one date in their order.
  \<^verbatim>\<open>
      df = data.copy()
      balance = df.set_index('date')['balance'].sort_index()
      balance = balance.groupby(balance.index).last()
  \<close>
\<close>

fun dated :: "'a row_scheme list \<Rightarrow> series" where
  "dated [] = []"
| "dated (r # rs) = (case date r of None \<Rightarrow> dated rs | Some d \<Rightarrow> (d, balance r) # dated rs)"

fun groupby_last :: "series \<Rightarrow> series" where
  "groupby_last [] = []"
| "groupby_last [x] = [x]"
| "groupby_last (x # y # ys) =
     (if fst x = fst y then groupby_last (y # ys) else x # groupby_last (y # ys))"

definition balance_by_date :: "'a row_scheme list \<Rightarrow> series" where
  "balance_by_date data = groupby_last (sort_key fst (dated data))"

text \<open>
  Lines 57 and 58. \<^verbatim>\<open>reindex\<close> gives every day of the new index the value the series
  has on exactly that day, and a missing value when it has none; \<^verbatim>\<open>ffill\<close> then
  replaces a missing value by the value before it in the re-indexed series; \<^verbatim>\<open>fillna(0.0)\<close>
  replaces what is still missing. The index of an empty series has NaT as minimum, which
  \<^verbatim>\<open>pd.date_range\<close> refuses.
  \<^verbatim>\<open>
      full_index = pd.date_range(start=balance.index.min(), end=balance.index.max(), freq=frequency)
      observed_cumulative = balance.reindex(full_index).ffill().fillna(0.0)
  \<close>
\<close>

definition reindex :: "series \<Rightarrow> int list \<Rightarrow> (int \<times> real option) list" where
  "reindex s idx = map (\<lambda>g. (g, map_of s g)) idx"

fun ffill :: "real option \<Rightarrow> (int \<times> real option) list \<Rightarrow> (int \<times> real option) list" where
  "ffill prev [] = []"
| "ffill prev ((g, None) # xs) = (g, prev) # ffill prev xs"
| "ffill prev ((g, Some v) # xs) = (g, Some v) # ffill (Some v) xs"

definition fillna :: "real \<Rightarrow> (int \<times> real option) list \<Rightarrow> series" where
  "fillna c s = map (\<lambda>(g, v). (g, case v of None \<Rightarrow> c | Some x \<Rightarrow> x)) s"

definition full_index :: "series \<Rightarrow> frequency \<Rightarrow> error + int list" where
  "full_index bal f =
     (if bal = [] then Inl ValueError
      else Inr (date_range (fst (hd bal)) (fst (last bal)) f))"

definition observed_cumulative_of :: "'a row_scheme list \<Rightarrow> frequency \<Rightarrow> error + series" where
  "observed_cumulative_of data f =
     (let bal = balance_by_date data in
      case full_index bal f of
        Inl e \<Rightarrow> Inl e
      | Inr idx \<Rightarrow> Inr (fillna 0 (ffill None (reindex bal idx))))"

text \<open>
  Line 61, \<^verbatim>\<open>observed_cumulative.diff().fillna(observed_cumulative.iloc[0])\<close>:
  \<^verbatim>\<open>iloc[0]\<close> of an empty series raises an \<^verbatim>\<open>IndexError\<close>.
\<close>

fun diff :: "series \<Rightarrow> (int \<times> real option) list" where
  "diff [] = []"
| "diff ((g, v) # xs) = (g, None) # map2 (\<lambda>(g', w) (h, u). (g', Some (w - u))) xs ((g, v) # xs)"

definition period_amounts_of :: "series \<Rightarrow> error + series" where
  "period_amounts_of obs =
     (case obs of [] \<Rightarrow> Inl IndexError | (g, v) # xs \<Rightarrow> Inr (fillna v (diff obs)))"

text \<open>\<^verbatim>\<open>Series.cumsum\<close>\<close>

fun cumsum_from :: "real \<Rightarrow> real list \<Rightarrow> real list" where
  "cumsum_from acc [] = []"
| "cumsum_from acc (x # xs) = (acc + x) # cumsum_from (acc + x) xs"

definition cumsum :: "real list \<Rightarrow> real list" where
  "cumsum xs = cumsum_from 0 xs"

text \<open>
  The result of \<^verbatim>\<open>sarima\<close>. The two confidence intervals are frames with the columns
  \<^verbatim>\<open>lower\<close> and \<^verbatim>\<open>upper\<close>.
\<close>

record forecast =
  daily :: series
  daily_ci :: "(int \<times> real \<times> real) list"
  cumulative :: series
  cumulative_ci :: "(int \<times> real \<times> real) list"
  observed_cumulative :: series
  frequency_used :: frequency

text \<open>
  Lines 71 to 86 fit a statsmodels \<^verbatim>\<open>SARIMAX\<close> model to the period amounts and ask it
  for \<^verbatim>\<open>steps\<close> predictions. What the library returns (the predicted means, and the
  lower and upper bounds of the intervals), or that it raises, is the parameter \<open>fit\<close> of
  the model: a function of the period amounts, the two orders and the number of steps.
  Assigning \<^verbatim>\<open>forecast_index\<close> as the index of a result of another length raises a
  \<^verbatim>\<open>ValueError\<close>, as does a negative number of periods in \<^verbatim>\<open>pd.date_range\<close>.
\<close>

type_synonym sarimax =
  "series \<Rightarrow> int \<times> int \<times> int \<Rightarrow> int \<times> int \<times> int \<times> int \<Rightarrow> int
     \<Rightarrow> error + (real list \<times> (real \<times> real) list)"

definition sarima ::
  "sarimax \<Rightarrow> 'a row_scheme list \<Rightarrow> int \<Rightarrow> int \<times> int \<times> int \<Rightarrow> int \<times> int \<times> int \<times> int
     \<Rightarrow> frequency \<Rightarrow> error + forecast" where
  "sarima fit data forecast_horizon sarima_order seasonal_order f =
     (case observed_cumulative_of data f of
        Inl e \<Rightarrow> Inl e
      | Inr obs \<Rightarrow>
     (case period_amounts_of obs of
        Inl e \<Rightarrow> Inl e
      | Inr period_amounts \<Rightarrow>
     (let last_obs = fst (last obs) in
      if forecast_horizon < 0 then Inl ValueError
      else
     (let forecast_index = date_range_periods f (add_offset f last_obs) (nat forecast_horizon) in
      case fit period_amounts sarima_order seasonal_order forecast_horizon of
        Inl e \<Rightarrow> Inl e
      | Inr (predicted_mean, conf_int) \<Rightarrow>
          if length predicted_mean \<noteq> length forecast_index
             \<or> length conf_int \<noteq> length forecast_index
          then Inl ValueError
          else
            (let daily_forecast = zip forecast_index predicted_mean;
                 last_cum = (if length obs > 0 then snd (last obs) else 0);
                 cum_forecast = zip forecast_index (map (\<lambda>x. last_cum + x) (cumsum predicted_mean));
                 cum_lower = map (\<lambda>x. last_cum + x) (cumsum (map fst conf_int));
                 cum_upper = map (\<lambda>x. last_cum + x) (cumsum (map snd conf_int))
             in Inr \<lparr>daily = daily_forecast,
                     daily_ci = zip forecast_index conf_int,
                     cumulative = cum_forecast,
                     cumulative_ci = zip forecast_index (zip cum_lower cum_upper),
                     observed_cumulative = obs,
                     frequency_used = f\<rparr>)))))"

text \<open>
  The observed series as the specification words it: every day of the grid takes the
  balance of the most recent observed date that is not after it, and 0 when there is none.
\<close>

definition asof :: "series \<Rightarrow> int \<Rightarrow> real option" where
  "asof bal g =
     (case filter (\<lambda>(d, v). d \<le> g) bal of [] \<Rightarrow> None | x # xs \<Rightarrow> Some (snd (last (x # xs))))"

definition spec_observed :: "series \<Rightarrow> int list \<Rightarrow> series" where
  "spec_observed bal idx = map (\<lambda>g. (g, case asof bal g of None \<Rightarrow> 0 | Some v \<Rightarrow> v)) idx"

text \<open>
  What the program computes: a day of the grid takes the balance of the last day of the
  grid, up to itself, that is an observed date.
\<close>

definition last_on_grid :: "series \<Rightarrow> int list \<Rightarrow> real option" where
  "last_on_grid bal gs =
     (case filter (\<lambda>g. map_of bal g \<noteq> None) gs of [] \<Rightarrow> None | h # hs \<Rightarrow> map_of bal (last (h # hs)))"

definition grid_observed :: "series \<Rightarrow> int list \<Rightarrow> series" where
  "grid_observed bal idx =
     map (\<lambda>k. (idx ! k, case last_on_grid bal (take (Suc k) idx) of None \<Rightarrow> 0 | Some v \<Rightarrow> v))
       [0..<length idx]"

section \<open>Example inputs\<close>

definition sample_file :: raw_file where
  "sample_file = \<lparr>header = [''Date'', ''Amount''], lines = [[Some ''01/01/2026'', Some ''5,0'']]\<rparr>"

definition sample_files :: files where
  "sample_files =
     \<lparr>raw_dir = [(''a.csv'', sample_file), (''b.csv'', sample_file)],
      register_json = Present [''a.csv'' \<mapsto> ''2026-01-01T00:00:00''],
      transactions_csv = Some []\<rparr>"

text \<open>
  An instance of the cleaning step for the examples: one row for every line of the frame,
  with the account \<^verbatim>\<open>BE11 1111\<close> as sender, dated 2026-02-01 (day 20485).
\<close>

definition sample_row :: row where
  "sample_row =
     \<lparr>date = Some 20485, sender = ''BE11 1111'', recipient = ''BE99 9999'',
      description = ''CARREFOUR EXPRESS'', amount = - 25, balance = 975\<rparr>"

definition sample_clean :: "frame \<Rightarrow> error + row list" where
  "sample_clean fr = Inr (map (\<lambda>l. sample_row) (rows fr))"


definition sample_env :: env where
  "sample_env = \<lparr>GENERAL_ACCOUNT_ENDING = Some ''1111'', SAVINGS_ACCOUNT_ENDING = Some ''2222''\<rparr>"

definition sample_now :: "string \<Rightarrow> timestamp" where
  "sample_now file = ''2026-02-02T08:00:00''"

definition new_transaction :: transaction where
  "new_transaction =
     \<lparr>date = Some 20485, sender = ''General'', recipient = ''BE99 9999'',
      description = ''CARREFOUR EXPRESS'', amount = - 25, balance = 975,
      is_recurring = False, is_essential = True, concept = ''Groceries''\<rparr>"

text \<open>A table written by an earlier run, with a row of each of the two accounts.\<close>

definition general_transaction :: transaction where
  "general_transaction =
     \<lparr>date = Some 20454, sender = ''General'', recipient = ''BE77 7777'',
      description = ''ARHS SALARY'', amount = 1000, balance = 1000,
      is_recurring = False, is_essential = True, concept = ''Salary''\<rparr>"

definition savings_transaction :: transaction where
  "savings_transaction =
     \<lparr>date = Some 20455, sender = ''Savings'', recipient = ''BE11 1111'',
      description = ''ESTALVIS'', amount = 200, balance = 200,
      is_recurring = False, is_essential = True, concept = ''Savings''\<rparr>"

definition two_account_files :: files where
  "two_account_files =
     \<lparr>raw_dir = [(''a.csv'', sample_file), (''b.csv'', sample_file)],
      register_json = Present [''a.csv'' \<mapsto> ''2026-01-01T00:00:00''],
      transactions_csv = Some [general_transaction, savings_transaction]\<rparr>"

text \<open>A raw directory with a wider statement and a file that is not a statement.\<close>

definition wide_file :: raw_file where
  "wide_file =
     \<lparr>header = [''Date'', ''Amount'', ''Extra''],
      lines = [[Some ''02/01/2026'', Some ''7,5'', Some ''x''], [Some ''03/01/2026'']]\<rparr>"

definition notes_file :: raw_file where
  "notes_file = \<lparr>header = [''remember to export the statements''], lines = []\<rparr>"

definition mixed_files :: files where
  "mixed_files =
     \<lparr>raw_dir = [(''a.csv'', sample_file), (''b.csv'', sample_file),
                 (''wide.csv'', wide_file), (''notes.txt'', notes_file)],
      register_json = Present [''a.csv'' \<mapsto> ''2026-01-01T00:00:00''],
      transactions_csv = Some [general_transaction]\<rparr>"


text \<open>
  Payments to one recipient on 2026-01-01 and 33 days later, between them in the frame a
  payment to another recipient, which comes 10 days after an earlier one to it.
\<close>

definition payment :: "int \<Rightarrow> string \<Rightarrow> row" where
  "payment day rcp =
     \<lparr>date = Some day, sender = ''General'', recipient = rcp,
      description = ''PAYMENT'', amount = - 10, balance = 0\<rparr>"

definition gap_rows :: "row list" where
  "gap_rows = [payment 20487 ''BE22'', payment 20477 ''BE33'', payment 20454 ''BE22'',
               payment 20487 ''BE33'']"

text \<open>
  The two transactions of the end-to-end example: 2026-01-01 with balance 5000 and
  2026-02-01 with balance 3500. And a single transaction in the middle of a month.
\<close>

definition example_rows :: "row list" where
  "example_rows =
     [\<lparr>date = Some (days_from_civil 2026 1 1), sender = ''General'', recipient = ''BE77'',
       description = ''ARHS SALARY'', amount = 5000, balance = 5000\<rparr>,
      \<lparr>date = Some (days_from_civil 2026 2 1), sender = ''General'', recipient = ''BE88'',
       description = ''DESPESES LLOGUER'', amount = - 1500, balance = 3500\<rparr>]"

definition mid_month_rows :: "row list" where
  "mid_month_rows =
     [\<lparr>date = Some (days_from_civil 2026 1 15), sender = ''General'', recipient = ''BE77'',
       description = ''ARHS SALARY'', amount = 100, balance = 100\<rparr>]"

text \<open>
  An instance of the model fit for the examples: it answers every request with as many
  predictions as were asked for, all of them 0 with the interval from - 1 to 1.
\<close>

definition flat_fit :: sarimax where
  "flat_fit period_amounts order seasonal steps =
     Inr (replicate (nat steps) 0, replicate (nat steps) (- 1, 1))"

text \<open>
  An instance of the date parser for the examples: it reads the ISO form
  \<^verbatim>\<open>YYYY-MM-DD\<close> and refuses every other text. And the frame of \<open>gap_rows\<close> as it is
  when its dates are still texts.
\<close>

definition digit :: "char \<Rightarrow> int option" where
  "digit c = map_of (zip ''0123456789'' [0, 1, 2, 3, 4, 5, 6, 7, 8, 9]) c"

fun number_from :: "int \<Rightarrow> string \<Rightarrow> int option" where
  "number_from acc [] = Some acc"
| "number_from acc (c # cs) =
     (case digit c of None \<Rightarrow> None | Some v \<Rightarrow> number_from (10 * acc + v) cs)"

definition iso_date :: date_parser where
  "iso_date t =
     (if length t = 10 \<and> t ! 4 = CHR ''-'' \<and> t ! 7 = CHR ''-'' then
        (case number_from 0 (take 4 t) of
           None \<Rightarrow> None
         | Some y \<Rightarrow>
             (case number_from 0 (take 2 (drop 5 t)) of
                None \<Rightarrow> None
              | Some m \<Rightarrow>
                  (case number_from 0 (drop 8 t) of
                     None \<Rightarrow> None
                   | Some d \<Rightarrow>
                       if 1 \<le> m \<and> m \<le> 12 \<and> 1 \<le> d \<and> d \<le> 31
                       then Some (days_from_civil y m d) else None)))
      else None)"

definition gap_frame :: data_frame where
  "gap_frame =
     \<lparr>date_column = [Text ''2026-02-03'', Text ''2026-01-24'', Text ''2026-01-01'',
                      Text ''2026-02-03''],
      sender_column = [''General'', ''General'', ''General'', ''General''],
      recipient_column = [''BE22'', ''BE33'', ''BE22'', ''BE33''],
      description_column = [''PAYMENT'', ''PAYMENT'', ''PAYMENT'', ''PAYMENT''],
      amount_column = [- 10, - 10, - 10, - 10],
      balance_column = [0, 0, 0, 0]\<rparr>"

section \<open>The rule loop, row by row\<close>

lemma fixed_rules_split:
  "list_all (\<lambda>rl. split_bar (join_bar (rule_keywords rl)) = rule_keywords rl) fixed_rules"
  by (simp add: fixed_rules_def)

lemma fixed_rules_literal:
  "list_all (\<lambda>rl. list_all (\<lambda>kw. kw \<noteq> [] \<and> list_all (\<lambda>c. c \<notin> set regex_special) kw) (rule_keywords rl)) fixed_rules"
  by (simp add: fixed_rules_def regex_special_def)

lemma mask_fixed_rules:
  assumes "rl \<in> set fixed_rules"
  shows "rule_mask rl r = spec_rule_matches rl (description r)"
proof -
  from assms fixed_rules_split have "split_bar (join_bar (rule_keywords rl)) = rule_keywords rl"
    by (simp add: list_all_iff)
  then show ?thesis by (simp add: rule_mask_def re_search_def spec_rule_matches_def)
qed

lemma fold_apply_rule_map: "fold apply_rule rules df = map (fold rule_step rules) df"
proof (induction rules arbitrary: df)
  case Nil show ?case by (simp add: map_idI)
next
  case (Cons rl rules)
  have "apply_rule rl df = map (rule_step rl) df" by (simp add: apply_rule_def rule_step_def)
  with Cons show ?case by simp
qed

lemma description_rule_step: "description (rule_step rl t) = description t"
  by (simp add: rule_step_def)

lemma description_fold_step: "description (fold rule_step rules t) = description t"
  by (induction rules arbitrary: t) (simp_all add: description_rule_step)

lemma mask_fold_step: "rule_mask rl (fold rule_step rules t) = rule_mask rl t"
  by (simp add: rule_mask_def description_fold_step)

lemma rule_step_hit:
  "rule_mask rl t \<Longrightarrow> concept (rule_step rl t) = rule_concept rl \<and> is_essential (rule_step rl t) = rule_essential rl"
  by (simp add: rule_step_def)

lemma rule_step_miss: "\<not> rule_mask rl t \<Longrightarrow> rule_step rl t = t"
  by (simp add: rule_step_def)

lemma fold_step_last:
  "(concept (fold rule_step rules t), is_essential (fold rule_step rules t)) =
     (case filter (\<lambda>rl. rule_mask rl t) rules of
        [] \<Rightarrow> (concept t, is_essential t)
      | m # ms \<Rightarrow> (rule_concept (last (m # ms)), rule_essential (last (m # ms))))"
proof (induction rules rule: rev_induct)
  case Nil show ?case by simp
next
  case (snoc rl rules)
  have step: "fold rule_step (rules @ [rl]) t = rule_step rl (fold rule_step rules t)" by simp
  show ?case
  proof (cases "rule_mask rl t")
    case True
    then have m: "rule_mask rl (fold rule_step rules t)" by (simp add: mask_fold_step)
    have "filter (\<lambda>rl. rule_mask rl t) (rules @ [rl]) = filter (\<lambda>rl. rule_mask rl t) rules @ [rl]"
      using True by simp
    then have "(case filter (\<lambda>rl. rule_mask rl t) (rules @ [rl]) of
        [] \<Rightarrow> (concept t, is_essential t)
      | m # ms \<Rightarrow> (rule_concept (last (m # ms)), rule_essential (last (m # ms))))
      = (rule_concept rl, rule_essential rl)"
      by (cases "filter (\<lambda>rl. rule_mask rl t) rules") simp_all
    then show ?thesis unfolding step using rule_step_hit [OF m] by simp
  next
    case False
    then have m: "\<not> rule_mask rl (fold rule_step rules t)" by (simp add: mask_fold_step)
    have "filter (\<lambda>rl. rule_mask rl t) (rules @ [rl]) = filter (\<lambda>rl. rule_mask rl t) rules"
      using False by simp
    then show ?thesis unfolding step using rule_step_miss [OF m] snoc by simp
  qed
qed

lemma filter_mask_fixed:
  "filter (\<lambda>rl. rule_mask rl r) fixed_rules = filter (\<lambda>rl. spec_rule_matches rl (description r)) fixed_rules"
  by (rule filter_cong) (simp_all add: mask_fixed_rules)

lemma length_fold_update:
  "length (fold (\<lambda>(i, v) s. s[i := v]) ps s) = length s"
  by (induction ps arbitrary: s) (simp_all add: case_prod_beta)

lemma length_recurring_of: "length (recurring_of df) = length df"
  by (simp add: recurring_of_def Let_def length_fold_update base_flag_def)

lemma length_flag_recurring: "length (flag_recurring df) = length df"
  by (simp add: flag_recurring_def length_recurring_of)

lemma annotate_fields:
  "description (annotate r f e c) = description r"
  "concept (annotate r f e c) = c"
  "is_essential (annotate r f e c) = e"
  by (simp_all add: annotate_def)

section \<open>What a run of the ingestion writes\<close>

lemma fold_register:
  "fold (\<lambda>file reg. reg(file \<mapsto> now file)) pending reg
     = (\<lambda>f. if f \<in> set pending then Some (now f) else reg f)"
  by (induction pending arbitrary: reg) (auto simp: fun_eq_iff)


lemma preprocessing_nothing_pending:
  "get_files reprocess fs = Inr ([], reg) \<Longrightarrow> preprocessing clean e now reprocess fs = (None, fs)"
  by (simp add: preprocessing_def)

lemma preprocessing_success:
  assumes "get_files reprocess fs = Inr (pending, reg)" "pending \<noteq> []"
    and "preprocessing clean e now reprocess fs = (None, fs')"
  shows "\<exists>df old. normalise clean e fs pending = Inr df
           \<and> (if reprocess then old = [] else load fs = Inr old)
           \<and> fs' = json_dump (\<lambda>f. if f \<in> set pending then Some (now f)
                                 else if reprocess then None else reg f)
                     (to_csv (old @ df) fs)"
  using assms
  by (cases reprocess)
     (auto simp: preprocessing_def Let_def fold_register split: sum.splits prod.splits if_splits
           cong del: if_weak_cong)

lemma preprocessing_appends_general_rows:
  assumes "get_files False fs = Inr (pending, reg)" "pending \<noteq> []"
    and "preprocessing clean e now False fs = (None, fs')"
    and "transactions_csv fs = Some old"
  shows "\<exists>df. normalise clean e fs pending = Inr df
           \<and> transactions_csv fs' = Some (filter (\<lambda>r. sender r = ''General'') old @ df)"
proof -
  from preprocessing_success [OF assms(1,2,3)] obtain df old' where
    n: "normalise clean e fs pending = Inr df" and l: "load fs = Inr old'"
    and f: "fs' = json_dump (\<lambda>f. if f \<in> set pending then Some (now f)
                                 else if False then None else reg f) (to_csv (old' @ df) fs)"
    by auto
  from l assms(4) have "old' = filter (\<lambda>r. sender r = ''General'') old"
    by (simp add: load_def)
  with n f show ?thesis by (simp add: json_dump_def to_csv_def)
qed

lemma usecols_take: "n \<le> length l \<Longrightarrow> usecols n l = take n l"
  by (auto simp: usecols_def intro!: nth_equalityI)

lemma read_all_wide_enough:
  assumes "\<forall>file \<in> set fl. \<exists>f. map_of (raw_dir fs) file = Some f \<and> n \<le> length (header f)"
  shows "read_all fs n fl = Inr (map (\<lambda>file. first_columns n (the (map_of (raw_dir fs) file))) fl)"
  using assms
proof (induction fl)
  case Nil show ?case by simp
next
  case (Cons nm fl)
  then obtain f where f: "map_of (raw_dir fs) nm = Some f" "n \<le> length (header f)" by auto
  then have "read_csv fs n nm = Inr (first_columns n f)" by (simp add: read_csv_def)
  with Cons f show ?case by simp
qed

section \<open>The sorted frame and the groups\<close>

lemma to_datetime_stamps: "to_datetime parse (map Stamp ds) = Inr (map Stamp ds)"
  by (induction ds) simp_all

lemma fold_update_nth:
  "distinct (map fst ps) \<Longrightarrow> i < length s \<Longrightarrow>
     fold (\<lambda>(j, v) s. s[j := v]) ps s ! i = (case map_of ps i of Some v \<Rightarrow> v | None \<Rightarrow> s ! i)"
proof (induction ps arbitrary: s)
  case Nil show ?case by simp
next
  case (Cons p ps)
  obtain j v where p: "p = (j, v)" by (cases p)
  from Cons.prems have d: "distinct (map fst ps)" and j: "j \<notin> fst ` set ps" by (auto simp: p)
  have "fold (\<lambda>(j, v) s. s[j := v]) (p # ps) s ! i
      = (case map_of ps i of Some v \<Rightarrow> v | None \<Rightarrow> s[j := v] ! i)"
    using Cons.IH [OF d, of "s[j := v]"] Cons.prems(2) by (simp add: p)
  also have "\<dots> = (case map_of (p # ps) i of Some v \<Rightarrow> v | None \<Rightarrow> s ! i)"
  proof (cases "i = j")
    case True
    with j have "map_of ps i = None" by (simp add: map_of_eq_None_iff)
    with True Cons.prems(2) show ?thesis by (simp add: p)
  next
    case False then show ?thesis by (simp add: p split: option.splits)
  qed
  finally show ?case .
qed

lemma distinct_map_insort_key:
  "distinct (map g (insort_key f x xs)) = (g x \<notin> g ` set xs \<and> distinct (map g xs))"
  by (induction xs) (auto simp: set_insort_key)

lemma distinct_map_sort_key:
  "distinct (map g (sort_key f xs)) = distinct (map g xs)"
  by (induction xs) (simp_all add: distinct_map_insort_key)

lemma previous_in_absent:
  "i \<notin> fst ` set (tl F) \<Longrightarrow> previous_in i F = None"
  by (induction i F rule: previous_in.induct) auto

lemma previous_in_present:
  "i \<in> fst ` set (tl F) \<Longrightarrow> previous_in i F \<noteq> None"
  by (induction i F rule: previous_in.induct) auto

lemma insort_key_cong_order:
  "(\<And>y. y \<in> set xs \<Longrightarrow> (f x \<le> f y) = (g x \<le> g y)) \<Longrightarrow> insort_key f x xs = insort_key g x xs"
  by (induction xs) auto

lemma sort_key_cong_order:
  "(\<And>x y. x \<in> set xs \<Longrightarrow> y \<in> set xs \<Longrightarrow> (f x \<le> f y) = (g x \<le> g y)) \<Longrightarrow>
     sort_key f xs = sort_key g xs"
proof (induction xs)
  case Nil show ?case by simp
next
  case (Cons x xs)
  have "sort_key f xs = sort_key g xs" by (rule Cons.IH) (simp add: Cons.prems)
  moreover have "insort_key f x (sort_key g xs) = insort_key g x (sort_key g xs)"
    by (rule insort_key_cong_order) (simp add: Cons.prems)
  ultimately show ?case by simp
qed

lemma filter_sort_values:
  "filter (\<lambda>(i, r). recipient r = rcp) (sort_values (enumerate 0 df)) = group_of df rcp"
proof -
  let ?P = "\<lambda>(i, r). recipient r = rcp"
  let ?F = "filter ?P (enumerate 0 df)"
  have "filter ?P (sort_values (enumerate 0 df))
      = sort_key (\<lambda>(i, r). (recipient r, date_key (date r))) ?F"
    by (simp add: sort_values_def filter_sort)
  also have "\<dots> = sort_key (\<lambda>(i, r). date_key (date r)) ?F"
    by (rule sort_key_cong_order) (auto simp: less_eq_prod_def)
  finally show ?thesis by (simp add: group_of_def)
qed


lemma group_shift_nth:
  "distinct (map fst xs) \<Longrightarrow> k < length xs \<Longrightarrow>
     group_shift seen xs ! k =
       (case previous_in (fst (xs ! k))
               (filter (\<lambda>(j, s). recipient s = recipient (snd (xs ! k))) xs) of
          Some p \<Rightarrow> date p
        | None \<Rightarrow> (case seen (recipient (snd (xs ! k))) of None \<Rightarrow> None | Some d \<Rightarrow> d))"
proof (induction seen xs arbitrary: k rule: group_shift.induct)
  case (1 seen) then show ?case by simp
next
  case (2 seen j s xs)
  from "2.prems" have d: "distinct (map fst xs)" and j: "j \<notin> fst ` set xs" by auto
  show ?case
  proof (cases k)
    case 0
    have "j \<notin> fst ` set (filter (\<lambda>(j, s'). recipient s' = recipient s) xs)" using j by auto
    then have "previous_in j ((j, s) # filter (\<lambda>(j, s'). recipient s' = recipient s) xs) = None"
      by (intro previous_in_absent) simp
    with 0 show ?thesis by simp
  next
    case (Suc k')
    with "2.prems" have k': "k' < length xs" by simp
    obtain i r where ir: "xs ! k' = (i, r)" by (cases "xs ! k'")
    let ?P = "\<lambda>(j, s'). recipient s' = recipient r"
    let ?F = "filter ?P xs"
    let ?seen = "seen(recipient s \<mapsto> date s)"
    have mem: "(i, r) \<in> set xs" using k' ir by (metis nth_mem)
    then have memF: "(i, r) \<in> set ?F" by simp
    have ij: "i \<noteq> j" using mem j by force
    have dF: "distinct (map fst ?F)" using d by (simp add: distinct_map_filter)
    have IH: "group_shift ?seen xs ! k' =
       (case previous_in i ?F of Some p \<Rightarrow> date p
        | None \<Rightarrow> (case ?seen (recipient r) of None \<Rightarrow> None | Some d \<Rightarrow> d))"
      using "2.IH" [OF d k'] by (simp only: ir fst_conv snd_conv)
    have lhs: "group_shift seen ((j, s) # xs) ! k = group_shift ?seen xs ! k'"
      by (simp add: Suc)
    have tgt: "((j, s) # xs) ! k = (i, r)" by (simp add: Suc ir)
    have "group_shift ?seen xs ! k' =
       (case previous_in i (filter ?P ((j, s) # xs)) of Some p \<Rightarrow> date p
        | None \<Rightarrow> (case seen (recipient r) of None \<Rightarrow> None | Some d \<Rightarrow> d))"
    proof (cases "recipient s = recipient r")
      case False
      then have "filter ?P ((j, s) # xs) = ?F" and "?seen (recipient r) = seen (recipient r)"
        by simp_all
      then show ?thesis using IH by (simp only:)
    next
      case True
      then have fx: "filter ?P ((j, s) # xs) = (j, s) # ?F"
        and sv: "?seen (recipient r) = Some (date s)" by simp_all
      from memF obtain y ys where F: "?F = y # ys" by (cases ?F) auto
      show ?thesis
      proof (cases "fst y = i")
        case yi: True
        from dF F yi have "i \<notin> fst ` set (tl ?F)" by auto
        then have "previous_in i ?F = None" by (rule previous_in_absent)
        moreover have "previous_in i ((j, s) # ?F) = Some s" by (simp add: F yi)
        ultimately show ?thesis using IH by (simp only: fx sv option.case)
      next
        case yi: False
        with memF F have "i \<in> fst ` set (tl ?F)" by force
        then have "previous_in i ?F \<noteq> None" by (rule previous_in_present)
        then obtain p where p: "previous_in i ?F = Some p" by auto
        have "previous_in i ((j, s) # ?F) = previous_in i ?F" by (simp add: F yi)
        then show ?thesis using IH by (simp only: fx p option.case)
      qed
    qed
    then show ?thesis by (simp only: lhs tgt fst_conv snd_conv)
  qed
qed


lemma length_group_shift: "length (group_shift seen xs) = length xs"
proof (induction xs arbitrary: seen)
  case Nil show ?case by simp
next
  case (Cons x xs) then show ?case by (cases x) simp
qed

lemma days_between_None: "days_between d None = None"
  by (simp add: days_between_def split: option.splits)

lemma sorted_labels:
  "map fst (sort_values (enumerate 0 df)) ! k = i \<Longrightarrow> k < length df \<Longrightarrow>
     i < length df \<and> sort_values (enumerate 0 df) ! k = (i, df ! i)"
proof -
  assume a: "map fst (sort_values (enumerate 0 df)) ! k = i" and k: "k < length df"
  let ?S = "sort_values (enumerate 0 df)"
  have len: "length ?S = length df" by (simp add: sort_values_def)
  then have "?S ! k \<in> set ?S" using k by simp
  then have "?S ! k \<in> set (enumerate 0 df)" by (simp add: sort_values_def)
  then have "fst (?S ! k) < length df \<and> snd (?S ! k) = df ! fst (?S ! k)"
    by (simp add: in_set_enumerate_eq)
  moreover have "fst (?S ! k) = i" using a k len by simp
  ultimately show ?thesis by (cases "?S ! k") auto
qed

lemma recurring_of_nth:
  assumes i: "i < length df"
  shows "recurring_of df ! i = (base_flag df ! i \<or> between 27 33 (spec_gap df i))"
proof -
  let ?S = "sort_values (enumerate 0 df)"
  let ?labels = "map fst ?S"
  let ?prev = "group_shift Map.empty ?S"
  let ?diff = "map2 (\<lambda>(i, r) p. days_between (date r) p) ?S ?prev"
  let ?flag = "map (between 27 33) ?diff"
  let ?rhs = "map2 (\<lambda>i p. base_flag df ! i \<or> p) ?labels ?flag"
  have lenS: "length ?S = length df" by (simp add: sort_values_def)
  have lenP: "length ?prev = length df" by (simp add: length_group_shift lenS)
  have lenD: "length ?diff = length df" by (simp add: lenS lenP)
  have lenR: "length ?rhs = length df" by (simp add: lenS lenP)
  have lenL: "length ?labels = length df" by (simp add: lenS)
  have dS: "distinct (map fst ?S)"
    by (simp add: sort_values_def distinct_map_sort_key)
  have "set ?labels = fst ` set (enumerate 0 df)"
    by (simp add: sort_values_def)
  also have "\<dots> = set (map fst (enumerate 0 df))" by (simp only: set_map)
  also have "\<dots> = {0..<length df}" by simp
  finally have "set ?labels = {0..<length df}" .
  with i obtain k where k: "k < length df" and ki: "?labels ! k = i"
    using lenL by (metis atLeastLessThan_iff in_set_conv_nth zero_le)
  from sorted_labels [OF ki k] have Sk: "?S ! k = (i, df ! i)" by simp
  have mo: "map_of (zip ?labels ?rhs) i = Some (?rhs ! k)"
    using map_of_zip_nth [of ?labels ?rhs k] dS lenL lenR k ki by simp
  have prev: "?prev ! k =
      (case previous_in i (group_of df (recipient (df ! i))) of Some p \<Rightarrow> date p | None \<Rightarrow> None)"
    using group_shift_nth [OF dS, of k Map.empty] k lenS
    by (simp add: Sk filter_sort_values split: option.splits)
  have "?diff ! k = days_between (date (df ! i)) (?prev ! k)"
    using k lenS lenP by (simp add: Sk)
  also have "\<dots> = spec_gap df i"
    by (simp add: prev spec_gap_def days_between_None split: option.splits)
  finally have diff: "?diff ! k = spec_gap df i" .
  have rhs: "?rhs ! k = (base_flag df ! i \<or> between 27 33 (spec_gap df i))"
  proof -
    define L where "L = ?labels"
    define D where "D = ?diff"
    have "length L = length df" "length D = length df" "L ! k = i" "D ! k = spec_gap df i"
      using lenL lenD ki diff by (simp_all only: L_def D_def)
    then have "map2 (\<lambda>i p. base_flag df ! i \<or> p) L (map (between 27 33) D) ! k
        = (base_flag df ! i \<or> between 27 33 (spec_gap df i))"
      using k by simp
    then show ?thesis by (simp only: L_def D_def)
  qed
  have "recurring_of df = fold (\<lambda>(i, v) is_recurring. is_recurring[i := v]) (zip ?labels ?rhs) (base_flag df)"
    by (simp add: recurring_of_def Let_def)
  moreover have "distinct (map fst (zip ?labels ?rhs))"
    using dS lenL lenR by (simp add: map_fst_zip)
  moreover have "i < length (base_flag df)" using i by (simp add: base_flag_def)
  ultimately have "recurring_of df ! i = (case map_of (zip ?labels ?rhs) i of Some v \<Rightarrow> v | None \<Rightarrow> base_flag df ! i)"
    by (simp only: fold_update_nth)
  then show ?thesis by (simp only: mo rhs option.case)
qed

section \<open>Re-indexing and forward fill\<close>

lemma length_ffill: "length (ffill prev xs) = length xs"
  by (induction prev xs rule: ffill.induct) simp_all

lemma last_filter_sat: "filter P xs = h # hs \<Longrightarrow> P (last (h # hs))"
proof -
  assume a: "filter P xs = h # hs"
  have "last (h # hs) \<in> set (filter P xs)" unfolding a by (rule last_in_set) simp
  then show ?thesis by simp
qed

lemma last_on_grid_Cons_Some:
  "map_of bal g = Some v \<Longrightarrow>
     last_on_grid bal (g # gs) = (case last_on_grid bal gs of None \<Rightarrow> Some v | Some w \<Rightarrow> Some w)"
proof (cases "filter (\<lambda>g. map_of bal g \<noteq> None) gs")
  case Nil
  assume "map_of bal g = Some v"
  with Nil show ?thesis by (simp add: last_on_grid_def)
next
  case (Cons h hs)
  assume v: "map_of bal g = Some v"
  from last_filter_sat [OF Cons] obtain w where w: "map_of bal (last (h # hs)) = Some w" by auto
  have "last_on_grid bal gs = Some w" using Cons w by (simp add: last_on_grid_def)
  moreover have "last_on_grid bal (g # gs) = Some w" using Cons w v by (simp add: last_on_grid_def)
  ultimately show ?thesis by simp
qed

lemma ffill_reindex_nth:
  "k < length idx \<Longrightarrow>
     ffill prev (reindex bal idx) ! k =
       (idx ! k, case last_on_grid bal (take (Suc k) idx) of None \<Rightarrow> prev | Some v \<Rightarrow> Some v)"
proof (induction idx arbitrary: prev k)
  case Nil then show ?case by simp
next
  case (Cons g idx)
  show ?case
  proof (cases "map_of bal g")
    case None
    show ?thesis
    proof (cases k)
      case 0 with None show ?thesis by (simp add: reindex_def last_on_grid_def)
    next
      case (Suc k')
      with Cons.prems have k': "k' < length idx" by simp
      have "last_on_grid bal (take (Suc k) (g # idx)) = last_on_grid bal (take (Suc k') idx)"
        using None by (simp add: last_on_grid_def Suc)
      moreover have "ffill prev (reindex bal (g # idx)) ! k = ffill prev (reindex bal idx) ! k'"
        using None by (simp add: reindex_def Suc)
      ultimately show ?thesis using Cons.IH [OF k', of prev] by (simp add: Suc)
    qed
  next
    case (Some v)
    show ?thesis
    proof (cases k)
      case 0 with Some show ?thesis by (simp add: reindex_def last_on_grid_def)
    next
      case (Suc k')
      with Cons.prems have k': "k' < length idx" by simp
      have "last_on_grid bal (take (Suc k) (g # idx)) =
          (case last_on_grid bal (take (Suc k') idx) of None \<Rightarrow> Some v | Some w \<Rightarrow> Some w)"
        using last_on_grid_Cons_Some [OF Some] by (simp add: Suc)
      moreover have "ffill prev (reindex bal (g # idx)) ! k = ffill (Some v) (reindex bal idx) ! k'"
        using Some by (simp add: reindex_def Suc)
      ultimately show ?thesis using Cons.IH [OF k', of "Some v"]
        by (simp add: Suc split: option.splits)
    qed
  qed
qed

lemma observed_on_grid:
  "fillna 0 (ffill None (reindex bal idx)) = grid_observed bal idx"
proof (rule nth_equalityI)
  show "length (fillna 0 (ffill None (reindex bal idx))) = length (grid_observed bal idx)"
    by (simp add: fillna_def length_ffill reindex_def grid_observed_def)
next
  fix k assume "k < length (fillna 0 (ffill None (reindex bal idx)))"
  then have k: "k < length idx" by (simp add: fillna_def length_ffill reindex_def)
  then have "fillna 0 (ffill None (reindex bal idx)) ! k
     = (idx ! k, case last_on_grid bal (take (Suc k) idx) of None \<Rightarrow> 0 | Some v \<Rightarrow> v)"
    by (simp add: fillna_def length_ffill reindex_def ffill_reindex_nth [unfolded reindex_def]
        split: option.splits)
  then show "fillna 0 (ffill None (reindex bal idx)) ! k = grid_observed bal idx ! k"
    using k by (simp add: grid_observed_def)
qed


section \<open>The observed series on the grid\<close>

text \<open>
  What lines 57 and 58 compute: a day of the grid takes the balance of the last day of the
  grid, up to itself, that is an observed date, and 0 when there is none. And the
  observed series of a forecast is the one of these lines.
\<close>

lemma observed_cumulative_on_grid:
  "balance_by_date data \<noteq> [] \<Longrightarrow>
     observed_cumulative_of data f =
       Inr (grid_observed (balance_by_date data)
             (date_range (fst (hd (balance_by_date data))) (fst (last (balance_by_date data))) f))"
  by (simp add: observed_cumulative_of_def full_index_def Let_def observed_on_grid)

lemma sarima_observed_cumulative:
  "sarima fit data horizon order seasonal f = Inr res \<Longrightarrow>
     observed_cumulative_of data f = Inr (observed_cumulative res)"
  by (auto simp: sarima_def Let_def split: sum.splits if_splits prod.splits)

text \<open>
  At the month-start frequency the two transactions of the example are days of the grid.
\<close>

lemma observed_cumulative_month_start:
  "observed_cumulative_of example_rows Freq_MS
     = Inr [(days_from_civil 2026 1 1, 5000), (days_from_civil 2026 2 1, 3500)]"
  by code_simp

section \<open>The forecast and the answer of the library\<close>

text \<open>
  What \<open>sarima\<close> returns once the observed series has a point depends on the statsmodels
  fit: an exception of the library is the exception of \<open>sarima\<close>, and a library that
  answers a request for no step with no prediction gives four empty series.
\<close>

lemma sarima_no_steps:
  assumes "observed_cumulative_of data f = Inr obs"
    and "period_amounts_of obs = Inr period_amounts"
    and "fit period_amounts order seasonal 0 = Inr ([], [])"
  shows "sarima fit data 0 order seasonal f =
           Inr \<lparr>daily = [], daily_ci = [], cumulative = [], cumulative_ci = [],
                observed_cumulative = obs, frequency_used = f\<rparr>"
  using assms by (simp add: sarima_def Let_def cumsum_def)

lemma sarima_fit_raises:
  assumes "observed_cumulative_of data f = Inr obs"
    and "period_amounts_of obs = Inr period_amounts"
    and "0 \<le> horizon"
    and "fit period_amounts order seasonal horizon = Inl e"
  shows "sarima fit data horizon order seasonal f = Inl e"
  using assms by (simp add: sarima_def Let_def)

section \<open>The file register\<close>

text \<open>
  Claim C5. For every set of files in the raw directory and every register \<open>R\<close>:
  listing with \<open>reprocess = False\<close> returns exactly the files that are not keys of \<open>R\<close>
  (in directory order), paired with \<open>R\<close>; listing with \<open>reprocess = True\<close>, or when no
  register file exists, returns all files paired with the empty register.
\<close>

theorem get_files_pending:
  "(register_json fs = Present R \<longrightarrow>
      get_files False fs = Inr (filter (\<lambda>f. f \<notin> dom R) (listdir fs), R)
      \<and> set (fst (projr (get_files False fs))) = set (listdir fs) - dom R)
   \<and> (reprocess \<or> register_json fs = Missing \<longrightarrow>
      get_files reprocess fs = Inr (listdir fs, Map.empty))"
  by (auto simp: get_files_def path_exists_def Let_def domIff)

theorem get_files_pending_witness:
  "register_json sample_files = Present [''a.csv'' \<mapsto> ''2026-01-01T00:00:00'']
   \<and> get_files False sample_files = Inr ([''b.csv''], [''a.csv'' \<mapsto> ''2026-01-01T00:00:00''])
   \<and> get_files True sample_files = Inr ([''a.csv'', ''b.csv''], Map.empty)"
  using get_files_pending [of sample_files "[''a.csv'' \<mapsto> ''2026-01-01T00:00:00'']" True]
  by (simp add: sample_files_def listdir_def)

section \<open>Categorisation\<close>

text \<open>
  Claim C4. For every transaction of the batch, \<open>apply_fixed_rules\<close> sets \<open>concept\<close> and
  \<open>is_essential\<close> as follows: a rule matches exactly when the case-folded description
  contains one of the rule's keywords as a substring; of several matching rules the one
  declared last decides; a transaction that no rule matches keeps the concept
  \<^verbatim>\<open>Others\<close> and is not essential. The rows stay in their order.
\<close>

theorem apply_fixed_rules_last_match:
  "map (\<lambda>t. (description t, concept t, is_essential t)) (apply_fixed_rules df)
     = map (\<lambda>r. (description r, spec_category fixed_rules (description r))) df"
proof -
  let ?init = "map2 (\<lambda>r f. annotate r f False ''Others'') df (flag_recurring df)"
  have len: "length ?init = length df" by (simp add: length_flag_recurring)
  have run: "apply_fixed_rules df = map (fold rule_step fixed_rules) ?init"
    by (simp add: apply_fixed_rules_def fold_apply_rule_map)
  have each: "(description (fold rule_step fixed_rules (?init ! i)),
               concept (fold rule_step fixed_rules (?init ! i)),
               is_essential (fold rule_step fixed_rules (?init ! i)))
            = (description (df ! i), spec_category fixed_rules (description (df ! i)))"
    if "i < length df" for i
  proof -
    have ini: "?init ! i = annotate (df ! i) (flag_recurring df ! i) False ''Others''"
      using that by (simp add: length_flag_recurring)
    have d: "description (?init ! i) = description (df ! i)"
      by (simp only: ini annotate_fields)
    have c: "concept (?init ! i) = ''Others''" "is_essential (?init ! i) = False"
      by (simp_all only: ini annotate_fields)
    have f: "filter (\<lambda>rl. rule_mask rl (?init ! i)) fixed_rules
           = filter (\<lambda>rl. spec_rule_matches rl (description (df ! i))) fixed_rules"
      by (simp only: filter_mask_fixed d)
    show ?thesis
      using fold_step_last [of fixed_rules "?init ! i"]
      by (simp only: f c description_fold_step d spec_category_def prod.inject)
  qed
  show ?thesis
    unfolding run
  proof (rule nth_equalityI)
    show "length (map (\<lambda>t. (description t, concept t, is_essential t))
            (map (fold rule_step fixed_rules) ?init))
        = length (map (\<lambda>r. (description r, spec_category fixed_rules (description r))) df)"
      using len by simp
  next
    fix i
    assume "i < length (map (\<lambda>t. (description t, concept t, is_essential t))
            (map (fold rule_step fixed_rules) ?init))"
    then have i: "i < length df" using len by simp
    then have i2: "i < length ?init" using len by simp
    have i3: "i < length (map (fold rule_step fixed_rules) ?init)" using i2 by simp
    show "map (\<lambda>t. (description t, concept t, is_essential t))
            (map (fold rule_step fixed_rules) ?init) ! i
        = map (\<lambda>r. (description r, spec_category fixed_rules (description r))) df ! i"
      using each [OF i] by (simp only: nth_map [OF i] nth_map [OF i2] nth_map [OF i3])
  qed
qed

section \<open>The persisted table\<close>

text \<open>
  Claim C1. For every run without \<open>reprocess\<close> on an existing table, the table
  persisted afterwards is the previously persisted table in full (every row of every
  sender, in its order) followed by the rows of the new batch.

  The program does not do this: it reads the old table with \<open>load\<close>, which keeps the rows
  of the sender \<^verbatim>\<open>General\<close> only (lemma \<open>preprocessing_appends_general_rows\<close>). On
  the table with a row of each account, the row of the savings account is gone after the run.
\<close>

theorem preprocessing_drops_savings_rows:
  "transactions_csv two_account_files = Some [general_transaction, savings_transaction]
   \<and> fst (preprocessing sample_clean sample_env sample_now False two_account_files) = None
   \<and> transactions_csv (snd (preprocessing sample_clean sample_env sample_now False two_account_files))
       = Some [general_transaction, new_transaction]"
  by code_simp

section \<open>The register is written last\<close>





section \<open>The column count of a batch\<close>

text \<open>
  Claim C10. The column count of a batch is the length of the header of the first pending
  file. Every file of the batch whose name ends in \<^verbatim>\<open>.csv\<close> is read with its first
  that-many columns, the others are not read at all; a file with a longer header is read
  without an error, its further columns are left out, and a data line that is long
  enough is cut to its first that-many cells.
\<close>

theorem batch_uses_first_header:
  assumes "pending \<noteq> []" and "map_of (raw_dir fs) (hd pending) = Some first"
    and "\<forall>file \<in> set (filter is_csv pending).
           \<exists>f. map_of (raw_dir fs) file = Some f \<and> length (header first) \<le> length (header f)"
  shows "read_frames fs pending
           = Inr (map (\<lambda>file. first_columns (length (header first)) (the (map_of (raw_dir fs) file)))
                   (filter is_csv pending))
         \<and> (\<forall>f. columns (first_columns (length (header first)) f) = take (length (header first)) (header f)
              \<and> length (rows (first_columns (length (header first)) f)) = length (lines f)
              \<and> (\<forall>l \<in> set (lines f). length (header first) \<le> length l \<longrightarrow>
                    usecols (length (header first)) l = take (length (header first)) l))"
  using assms(2) read_all_wide_enough [OF assms(3)]
  by (simp add: read_frames_def header_ncols_def first_columns_def usecols_take)


theorem batch_uses_first_header_witness:
  "read_frames mixed_files [''b.csv'', ''wide.csv'', ''notes.txt'']
     = Inr [\<lparr>columns = [''Date'', ''Amount''], rows = [[Some ''01/01/2026'', Some ''5,0'']]\<rparr>,
            \<lparr>columns = [''Date'', ''Amount''],
             rows = [[Some ''02/01/2026'', Some ''7,5''], [Some ''03/01/2026'', None]]\<rparr>]"
proof -
  have "read_frames mixed_files [''b.csv'', ''wide.csv'', ''notes.txt'']
           = Inr (map (\<lambda>file. first_columns (length (header sample_file)) (the (map_of (raw_dir mixed_files) file)))
                   (filter is_csv [''b.csv'', ''wide.csv'', ''notes.txt'']))"
    using batch_uses_first_header [of "[''b.csv'', ''wide.csv'', ''notes.txt'']" mixed_files sample_file]
    by (simp add: mixed_files_def is_csv_def endswith_def sample_file_def wide_file_def)
  then show ?thesis
    by (simp add: mixed_files_def is_csv_def endswith_def sample_file_def wide_file_def
        first_columns_def usecols_def upt_rec)
qed

section \<open>Recurring payments\<close>

text \<open>
  Claim C3, as the program has it. For every batch, \<open>flag_recurring\<close> returns the flags in
  the order of the rows of the batch; the flag of a row is the disjunction of (a) its
  case-folded description starts with the marker and (b) the gap in days to the
  transaction before it among those of the same recipient, sorted by date, is at least 27
  and at most 33, both ends included. The first transaction of a recipient has no gap and
  is flagged by (a) alone.
\<close>

theorem flag_recurring_both_ends:
  "flag_recurring df = spec_recurring (between 27 33) df
   \<and> (\<forall>i < length df. previous_in i (group_of df (recipient (df ! i))) = None \<longrightarrow>
         flag_recurring df ! i
           = startswith (lower (description (df ! i))) ''european direct debit creditor'')"
proof
  show eq: "flag_recurring df = spec_recurring (between 27 33) df"
  proof (rule nth_equalityI)
    show "length (flag_recurring df) = length (spec_recurring (between 27 33) df)"
      by (simp add: length_flag_recurring spec_recurring_def)
  next
    fix i assume "i < length (flag_recurring df)"
    then have i: "i < length df" by (simp add: length_flag_recurring)
    have "flag_recurring df ! i = (base_flag df ! i \<or> between 27 33 (spec_gap df i))"
      by (simp add: flag_recurring_def recurring_of_nth [OF i])
    then show "flag_recurring df ! i = spec_recurring (between 27 33) df ! i"
      using i by (simp add: spec_recurring_def base_flag_def)
  qed
  show "\<forall>i < length df. previous_in i (group_of df (recipient (df ! i))) = None \<longrightarrow>
         flag_recurring df ! i
           = startswith (lower (description (df ! i))) ''european direct debit creditor''"
    by (simp add: eq spec_recurring_def spec_gap_def between_def)
qed

theorem flag_recurring_both_ends_witness:
  "flag_recurring gap_rows = [True, False, False, False]
   \<and> spec_gap gap_rows 0 = Some 33
   \<and> previous_in 2 (group_of gap_rows (recipient (gap_rows ! 2))) = None
   \<and> flag_recurring gap_rows ! 2 = False"
proof -
  have g: "spec_recurring (between 27 33) gap_rows = [True, False, False, False]"
    by code_simp
  have p: "previous_in 2 (group_of gap_rows (recipient (gap_rows ! 2))) = None"
    by code_simp
  have s: "spec_gap gap_rows 0 = Some 33" by code_simp
  have l: "(2::nat) < length gap_rows" by (simp add: gap_rows_def)
  have m: "startswith (lower (description (gap_rows ! 2))) ''european direct debit creditor'' = False"
    by code_simp
  from flag_recurring_both_ends [of gap_rows] g
  have 1: "flag_recurring gap_rows = [True, False, False, False]" by simp
  from flag_recurring_both_ends [of gap_rows] l p
  have "flag_recurring gap_rows ! 2
      = startswith (lower (description (gap_rows ! 2))) ''european direct debit creditor''"
    by blast
  then have 2: "flag_recurring gap_rows ! 2 = False" by (simp only: m)
  show ?thesis using 1 2 p s by simp
qed

text \<open>
  The claim as it was stated has the window \<open>[27, 33)\<close>. On \<open>gap_rows\<close> the first row
  comes 33 days after the row before it of its recipient: the program flags it, the
  half-open window does not.
\<close>

theorem half_open_window_fails:
  "flag_recurring gap_rows \<noteq> spec_recurring half_open_window gap_rows"
  by code_simp

section \<open>The input of \<^verbatim>\<open>flag_recurring\<close>\<close>

text \<open>
  Claim C9. \<open>flag_recurring\<close> leaves its input batch unchanged: it works on a copy, so
  every frame that exists before the call, the input among them, has the same columns
  and the same cells after it, whether the call returns or raises. The date column is
  parsed on the copy only: when the parser accepts the dates, the copy is the input with
  the parsed date column in the place of the old one, and the returned series is
  computed from it. For a frame whose date column holds timestamps already, the series
  is the one of \<open>flag_recurring\<close> on the rows of the frame.
\<close>

theorem flag_recurring_obj_input_unchanged:
  "df < length s \<Longrightarrow>
     take (length s) (snd (flag_recurring_obj parse s df)) = s
     \<and> snd (flag_recurring_obj parse s df) ! df = s ! df
     \<and> (\<forall>stamps. to_datetime parse (date_column (s ! df)) = Inr stamps \<longrightarrow>
           snd (flag_recurring_obj parse s df) ! length s = (s ! df)\<lparr>date_column := stamps\<rparr>
           \<and> fst (flag_recurring_obj parse s df)
               = Inr (recurring_of (rows_of ((s ! df)\<lparr>date_column := stamps\<rparr>))))
     \<and> (\<forall>ds. date_column (s ! df) = map Stamp ds \<longrightarrow>
           fst (flag_recurring_obj parse s df) = Inr (flag_recurring (rows_of (s ! df))))"
proof (intro conjI allI impI)
  assume df: "df < length s"
  show "take (length s) (snd (flag_recurring_obj parse s df)) = s"
    by (simp add: flag_recurring_obj_def df_copy_def Let_def split: sum.splits)
  show "snd (flag_recurring_obj parse s df) ! df = s ! df"
    using df by (simp add: flag_recurring_obj_def df_copy_def Let_def nth_append split: sum.splits)
next
  fix stamps
  assume df: "df < length s" and p: "to_datetime parse (date_column (s ! df)) = Inr stamps"
  show "snd (flag_recurring_obj parse s df) ! length s = (s ! df)\<lparr>date_column := stamps\<rparr>"
    using df p by (simp add: flag_recurring_obj_def df_copy_def Let_def nth_append)
  show "fst (flag_recurring_obj parse s df)
          = Inr (recurring_of (rows_of ((s ! df)\<lparr>date_column := stamps\<rparr>)))"
    using df p by (simp add: flag_recurring_obj_def df_copy_def Let_def nth_append)
next
  fix ds
  assume df: "df < length s" and d: "date_column (s ! df) = map Stamp ds"
  then have p: "to_datetime parse (date_column (s ! df)) = Inr (date_column (s ! df))"
    by (simp add: to_datetime_stamps)
  show "fst (flag_recurring_obj parse s df) = Inr (flag_recurring (rows_of (s ! df)))"
    using df p by (simp add: flag_recurring_obj_def df_copy_def Let_def nth_append flag_recurring_def)
qed

theorem flag_recurring_obj_input_unchanged_witness:
  "(0::nat) < length [gap_frame]
   \<and> to_datetime iso_date (date_column gap_frame)
       = Inr [Stamp (Some 20487), Stamp (Some 20477), Stamp (Some 20454), Stamp (Some 20487)]
   \<and> snd (flag_recurring_obj iso_date [gap_frame] 0) ! 0 = gap_frame
   \<and> snd (flag_recurring_obj iso_date [gap_frame] 0) ! 1
       = gap_frame\<lparr>date_column :=
           [Stamp (Some 20487), Stamp (Some 20477), Stamp (Some 20454), Stamp (Some 20487)]\<rparr>
   \<and> fst (flag_recurring_obj iso_date [gap_frame] 0) = Inr [True, False, False, False]"
proof -
  let ?stamps = "[Stamp (Some 20487), Stamp (Some 20477), Stamp (Some 20454), Stamp (Some 20487)]"
  have l: "(0::nat) < length [gap_frame]" by simp
  have p: "to_datetime iso_date (date_column ([gap_frame] ! 0)) = Inr ?stamps" by code_simp
  have r: "rows_of (([gap_frame] ! 0)\<lparr>date_column := ?stamps\<rparr>) = gap_rows" by code_simp
  have f: "recurring_of gap_rows = [True, False, False, False]" by code_simp
  from flag_recurring_obj_input_unchanged [OF l, of iso_date] p r f show ?thesis by simp
qed

section \<open>The observed series of the forecast\<close>

text \<open>
  Claim C2. For every non-empty input, the \<open>observed_cumulative\<close> series of the forecast
  is the last-balance-per-date series on the calendar grid of the frequency between the
  first and the last observed date, every day of the grid taking the most recent observed
  balance (forward fill) and 0 before the first; for the two transactions of 2026-01-01
  (balance 5000) and 2026-02-01 (balance 3500) at monthly frequency it is 5000 for January
  and 3500 for February.

  The program does not do this. Line 58 re-indexes before it fills, and the re-indexing
  keeps only the balances of the observed dates that are days of the grid, so that the
  forward fill has nothing to carry from the others. At the month-end frequency, the
  default of \<^verbatim>\<open>sarima\<close> and of its caller, the grid of the two transactions is the
  single day 2026-01-31, which is not an observed date: the observed series is 0 there,
  where the most recent observed balance is 5000, and it has no entry for February.
  Every forecast that is returned for this input carries that series.
\<close>

theorem month_end_grid_misses_observations:
  "observed_cumulative_of example_rows Freq_ME = Inr [(days_from_civil 2026 1 31, 0)]
   \<and> spec_observed (balance_by_date example_rows)
        (date_range (days_from_civil 2026 1 1) (days_from_civil 2026 2 1) Freq_ME)
       = [(days_from_civil 2026 1 31, 5000)]
   \<and> (sarima fit example_rows horizon order seasonal Freq_ME = Inr res \<longrightarrow>
        observed_cumulative res = [(days_from_civil 2026 1 31, 0)])"
proof (intro conjI impI)
  show o: "observed_cumulative_of example_rows Freq_ME = Inr [(days_from_civil 2026 1 31, 0)]"
    by code_simp
  show "spec_observed (balance_by_date example_rows)
        (date_range (days_from_civil 2026 1 1) (days_from_civil 2026 2 1) Freq_ME)
       = [(days_from_civil 2026 1 31, 5000)]"
    by code_simp
  assume "sarima fit example_rows horizon order seasonal Freq_ME = Inr res"
  from sarima_observed_cumulative [OF this] o
  show "observed_cumulative res = [(days_from_civil 2026 1 31, 0)]" by simp
qed

theorem month_end_grid_misses_observations_witness:
  "sarima flat_fit example_rows 2 (1, 1, 1) (0, 1, 1, 12) Freq_ME
     = Inr \<lparr>daily = [(days_from_civil 2026 2 28, 0), (days_from_civil 2026 3 31, 0)],
            daily_ci = [(days_from_civil 2026 2 28, - 1, 1), (days_from_civil 2026 3 31, - 1, 1)],
            cumulative = [(days_from_civil 2026 2 28, 0), (days_from_civil 2026 3 31, 0)],
            cumulative_ci = [(days_from_civil 2026 2 28, - 1, 1),
                             (days_from_civil 2026 3 31, - 2, 2)],
            observed_cumulative = [(days_from_civil 2026 1 31, 0)],
            frequency_used = Freq_ME\<rparr>
   \<and> observed_cumulative
        \<lparr>daily = [(days_from_civil 2026 2 28, 0), (days_from_civil 2026 3 31, 0)],
         daily_ci = [(days_from_civil 2026 2 28, - 1, 1), (days_from_civil 2026 3 31, - 1, 1)],
         cumulative = [(days_from_civil 2026 2 28, 0), (days_from_civil 2026 3 31, 0)],
         cumulative_ci = [(days_from_civil 2026 2 28, - 1, 1),
                          (days_from_civil 2026 3 31, - 2, 2)],
         observed_cumulative = [(days_from_civil 2026 1 31, 0)],
         frequency_used = Freq_ME\<rparr>
       = [(days_from_civil 2026 1 31, 0)]"
proof -
  let ?res = "\<lparr>daily = [(days_from_civil 2026 2 28, 0), (days_from_civil 2026 3 31, 0)],
            daily_ci = [(days_from_civil 2026 2 28, - 1, 1), (days_from_civil 2026 3 31, - 1, 1)],
            cumulative = [(days_from_civil 2026 2 28, 0), (days_from_civil 2026 3 31, 0)],
            cumulative_ci = [(days_from_civil 2026 2 28, - 1, 1),
                             (days_from_civil 2026 3 31, - 2, 2)],
            observed_cumulative = [(days_from_civil 2026 1 31, 0)],
            frequency_used = Freq_ME\<rparr>"
  have s: "sarima flat_fit example_rows 2 (1, 1, 1) (0, 1, 1, 12) Freq_ME = Inr ?res"
    by code_simp
  from month_end_grid_misses_observations [of flat_fit 2 "(1, 1, 1)" "(0, 1, 1, 12)" ?res] s
  have "observed_cumulative ?res = [(days_from_civil 2026 1 31, 0)]" by blast
  with s show ?thesis by simp
qed

section \<open>Too few observations\<close>

text \<open>
  Claim C7. For every input that yields no or one observed cumulative point, the forecast
  returns an empty or trivial result and does not raise.

  The program raises. A single transaction in the middle of a month yields no point at
  the month-end frequency, and line 61 reads the first point of the series
  (\<^verbatim>\<open>IndexError\<close>), whatever the model fit would do; no transaction at all is refused
  by \<^verbatim>\<open>pd.date_range\<close> (\<^verbatim>\<open>ValueError\<close>). Line 91 does provide for the empty series.
\<close>

theorem sarima_raises_without_grid:
  "observed_cumulative_of mid_month_rows Freq_ME = Inr []
   \<and> sarima fit mid_month_rows horizon order seasonal Freq_ME = Inl IndexError
   \<and> sarima fit ([] :: row list) horizon order seasonal Freq_ME = Inl ValueError"
proof -
  have 1: "observed_cumulative_of mid_month_rows Freq_ME = Inr []" by code_simp
  have 2: "observed_cumulative_of ([] :: row list) Freq_ME = Inl ValueError" by code_simp
  show ?thesis
    by (simp add: sarima_def 1 2 period_amounts_of_def)
qed


theorem sarima_raises_without_grid_witness:
  "sarima flat_fit mid_month_rows 3 (1, 1, 1) (0, 1, 1, 12) Freq_ME = Inl IndexError
   \<and> sarima flat_fit ([] :: row list) 3 (1, 1, 1) (0, 1, 1, 12) Freq_ME = Inl ValueError"
  using sarima_raises_without_grid [of flat_fit 3 "(1, 1, 1)" "(0, 1, 1, 12)"] by simp

end
